theory Spec2Isabelle
  imports Main "HOL-Library.Word"
begin

section \<open>Strings\<close>

text \<open>
  A JavaScript string is a sequence of 16-bit code units; \<open>csvText[i]\<close>, \<open>===\<close> on
  one-character strings and \<open>trim\<close> all work on code units. \<open>js\<close> writes an ASCII
  literal as such a sequence.
\<close>

type_synonym code_unit = "16 word"
type_synonym jsstring = "code_unit list"

definition js :: "string \<Rightarrow> jsstring" where
  "js s = map (\<lambda>c. of_nat (of_char c)) s"

definition DQUOTE :: code_unit where "DQUOTE = 0x22"
definition COMMA :: code_unit where "COMMA = 0x2C"
definition LF :: code_unit where "LF = 0x0A"
definition CR :: code_unit where "CR = 0x0D"

text \<open>
  \<open>String.prototype.trim\<close> strips WhiteSpace and LineTerminator code points from both
  ends: TAB, LF, VT, FF, CR, SP, NBSP, the Unicode space separators, LS, PS and the
  byte order mark. All of them are single code units.
\<close>

definition is_white_space :: "code_unit \<Rightarrow> bool" where
  "is_white_space c \<longleftrightarrow>
     c = 0x09 \<or> c = 0x0A \<or> c = 0x0B \<or> c = 0x0C \<or> c = 0x0D \<or> c = 0x20 \<or> c = 0xA0 \<or>
     c = 0x1680 \<or> (0x2000 \<le> c \<and> c \<le> 0x200A) \<or> c = 0x2028 \<or> c = 0x2029 \<or>
     c = 0x202F \<or> c = 0x205F \<or> c = 0x3000 \<or> c = 0xFEFF"

definition trim :: "jsstring \<Rightarrow> jsstring" where
  "trim s = rev (dropWhile is_white_space (rev (dropWhile is_white_space s)))"

section \<open>parseCSV\<close>

text \<open>
  The mutable locals of \<open>parseCSV\<close>: the finished rows, the row and the cell being
  built, and the quoting mode. \<open>push\<close> appends at the end.
\<close>

record scanner =
  rows :: "jsstring list list"
  row :: "jsstring list"
  cell :: jsstring
  inQuotes :: bool

definition init :: scanner where
  "init = \<lparr>rows = [], row = [], cell = [], inQuotes = False\<rparr>"

text \<open>
  \<open>csvText[i + 1]\<close>: the code unit after the current one, \<open>undefined\<close> (here \<open>None\<close>)
  at the end of the text.
\<close>

definition lookahead :: "jsstring \<Rightarrow> code_unit option" where
  "lookahead rest = (case rest of [] \<Rightarrow> None | n # _ \<Rightarrow> Some n)"

text \<open>
  The \<open>for\<close> loop, on the text from position \<open>i\<close> on. The escaped quote advances
  two positions (\<open>i++\<close> in the body and in the loop header), every other branch one.
\<close>

fun scan :: "scanner \<Rightarrow> jsstring \<Rightarrow> scanner" where
  "scan st [] = st"
| "scan st (ch # rest) =
     (if inQuotes st then
        (if ch = DQUOTE \<and> lookahead rest = Some DQUOTE then
           scan (st\<lparr>cell := cell st @ [DQUOTE]\<rparr>) (drop 1 rest)
         else if ch = DQUOTE then
           scan (st\<lparr>inQuotes := False\<rparr>) rest
         else
           scan (st\<lparr>cell := cell st @ [ch]\<rparr>) rest)
      else
        (if ch = DQUOTE then
           scan (st\<lparr>inQuotes := True\<rparr>) rest
         else if ch = COMMA then
           scan (st\<lparr>row := row st @ [cell st], cell := []\<rparr>) rest
         else if ch = LF then
           scan (st\<lparr>rows := rows st @ [row st @ [cell st]], row := [], cell := []\<rparr>) rest
         else if ch = CR then
           scan st rest
         else
           scan (st\<lparr>cell := cell st @ [ch]\<rparr>) rest))"

text \<open>The loop from the initial locals, followed by the push of the last cell and row.\<close>

definition parse_rows :: "jsstring \<Rightarrow> jsstring list list" where
  "parse_rows csvText =
     (let st = scan init csvText in
      if length (cell st) > 0 \<or> length (row st) > 0
      then rows st @ [row st @ [cell st]]
      else rows st)"

text \<open>
  A decoded row is an object of type \<open>Record<string, string>\<close>, created by \<open>{}\<close>:
  a finite map from the keys of its own properties to their values.
\<close>

type_synonym jsrecord = "jsstring \<rightharpoonup> jsstring"

text \<open>
  \<open>obj[k] = v\<close> with a string \<open>v\<close>, on an object created by \<open>{}\<close>. The key
  \<open>__proto__\<close> is an accessor property of \<open>Object.prototype\<close>: the assignment
  calls its setter, which ignores a value that is not an object, and the object gets no
  property of its own. Every other key becomes, or stays, an own property with the
  value \<open>v\<close>.
\<close>

definition assign :: "jsrecord \<Rightarrow> jsstring \<Rightarrow> jsstring \<Rightarrow> jsrecord" where
  "assign obj k v = (if k = js ''__proto__'' then obj else obj(k \<mapsto> v))"

text \<open>\<open>cols[idx] ?? ""\<close>: an index past the end reads \<open>undefined\<close>.\<close>

definition col_at :: "jsstring list \<Rightarrow> nat \<Rightarrow> jsstring" where
  "col_at cols idx = (if idx < length cols then cols ! idx else [])"

text \<open>The body of \<open>map\<close>: \<open>headers.forEach\<close> assigns one key per header, in order.\<close>

definition to_record :: "jsstring list \<Rightarrow> jsstring list \<Rightarrow> jsrecord" where
  "to_record headers cols =
     fold (\<lambda>(idx, h) obj. assign obj (trim h) (trim (col_at cols idx)))
          (List.enumerate 0 headers) Map.empty"

text \<open>The predicate of \<open>filter\<close>: \<open>r.length > 0 && r.some((v) => v !== "")\<close>.\<close>

definition keep_row :: "jsstring list \<Rightarrow> bool" where
  "keep_row r \<longleftrightarrow> length r > 0 \<and> list_ex (\<lambda>v. v \<noteq> []) r"

definition records_of_rows :: "jsstring list list \<Rightarrow> jsrecord list" where
  "records_of_rows rs =
     (case rs of
        [] \<Rightarrow> []
      | headers # data \<Rightarrow> map (to_record headers) (filter keep_row data))"

definition parseCSV :: "jsstring \<Rightarrow> jsrecord list" where
  "parseCSV csvText = records_of_rows (parse_rows csvText)"

section \<open>Dates\<close>

text \<open>
  The time value of a \<open>Date\<close> object is a whole number of milliseconds since the
  epoch, or \<open>NaN\<close> for an invalid date (here \<open>None\<close>). \<open>TimeClip\<close> turns a time
  out of the representable range into \<open>NaN\<close>.
\<close>

type_synonym time_value = "int option"

definition msPerDay :: int where "msPerDay = 86400000"

definition valid_time :: "int \<Rightarrow> bool" where
  "valid_time t \<longleftrightarrow> \<bar>t\<bar> \<le> 8640000000000000"

definition time_clip :: "int \<Rightarrow> time_value" where
  "time_clip t = (if valid_time t then Some t else None)"

text \<open>
  What the code takes from its host: the \<open>Date\<close> constructor on a string (the time
  value it yields), the local time zone adjustment and \<open>String.prototype.toLowerCase\<close>.
  \<open>local_tza t True\<close> is the offset of local time from UTC, in milliseconds, in force
  at the instant \<open>t\<close>; \<open>local_tza t False\<close> is the offset in force when the local
  clock shows \<open>t\<close>. The two differ around a change of the clock.
\<close>

record host =
  new_Date :: "jsstring \<Rightarrow> time_value"
  local_tza :: "int \<Rightarrow> bool \<Rightarrow> int"
  toLowerCase :: "jsstring \<Rightarrow> jsstring"

definition LocalTime :: "(int \<Rightarrow> bool \<Rightarrow> int) \<Rightarrow> int \<Rightarrow> int" where
  "LocalTime tza t = t + tza t True"

definition UTC :: "(int \<Rightarrow> bool \<Rightarrow> int) \<Rightarrow> int \<Rightarrow> int" where
  "UTC tza t = t - tza t False"

definition Day :: "int \<Rightarrow> int" where
  "Day t = t div msPerDay"

definition make_time :: "int \<Rightarrow> int \<Rightarrow> int \<Rightarrow> int \<Rightarrow> int" where
  "make_time h m sec ms = h * 3600000 + m * 60000 + sec * 1000 + ms"

definition make_date :: "int \<Rightarrow> int \<Rightarrow> int" where
  "make_date day time = day * msPerDay + time"

text \<open>
  \<open>d.setHours(23, 59, 59, 999)\<close>: the day of the local time of \<open>d\<close>, at
  23:59:59.999, taken back to UTC with the offset in force at that local time, and
  clipped; an invalid date stays invalid.
\<close>

definition setHours_23_59_59_999 :: "(int \<Rightarrow> bool \<Rightarrow> int) \<Rightarrow> time_value \<Rightarrow> time_value" where
  "setHours_23_59_59_999 tza d =
     (case d of
        None \<Rightarrow> None
      | Some t \<Rightarrow>
          time_clip (UTC tza (make_date (Day (LocalTime tza t)) (make_time 23 59 59 999))))"

text \<open>\<open><\<close> on two dates compares their time values; with \<open>NaN\<close> it is false.\<close>

definition date_less :: "time_value \<Rightarrow> time_value \<Rightarrow> bool" where
  "date_less a b = (case a of None \<Rightarrow> False | Some x \<Rightarrow> (case b of None \<Rightarrow> False | Some y \<Rightarrow> x < y))"

text \<open>
  \<open>parseDate\<close>: \<open>null\<close> for \<open>undefined\<close> and for the empty string, \<open>null\<close> for an
  invalid date, the date otherwise.
\<close>

definition parseDate :: "host \<Rightarrow> jsstring option \<Rightarrow> int option" where
  "parseDate H v =
     (case v of
        None \<Rightarrow> None
      | Some str \<Rightarrow>
          if str = [] then None
          else (case new_Date H str of None \<Rightarrow> None | Some t \<Rightarrow> Some t))"

section \<open>The filter\<close>

text \<open>\<open>a || b\<close> on values that are a string or \<open>undefined\<close>, and on a date or \<open>null\<close>.\<close>

definition or_string :: "jsstring option \<Rightarrow> jsstring option \<Rightarrow> jsstring option" where
  "or_string a b = (if a \<noteq> None \<and> a \<noteq> Some [] then a else b)"

definition or_date :: "int option \<Rightarrow> int option \<Rightarrow> int option" where
  "or_date a b = (case a of Some t \<Rightarrow> Some t | None \<Rightarrow> b)"

definition title :: "jsrecord \<Rightarrow> jsstring option" where
  "title rw = or_string (or_string (rw (js ''Evento/titulo'')) (rw (js ''Evento''))) (rw (js ''titulo''))"

definition tStart :: "host \<Rightarrow> jsrecord \<Rightarrow> int option" where
  "tStart H rw =
     or_date (or_date (parseDate H (rw (js ''Timestamp Inicio'')))
                      (parseDate H (rw (js ''Timestamp inicio''))))
             (parseDate H (rw (js ''Inicio'')))"

text \<open>\<open>s.includes(q)\<close>: \<open>q\<close> occurs in \<open>s\<close> at some position.\<close>

fun str_includes :: "jsstring \<Rightarrow> jsstring \<Rightarrow> bool" where
  "str_includes [] q = (q = [])"
| "str_includes (c # s) q = (take (length q) (c # s) = q \<or> str_includes s q)"

definition matchesText :: "host \<Rightarrow> jsstring \<Rightarrow> jsstring option \<Rightarrow> bool" where
  "matchesText H query ttl =
     (if query \<noteq> []
      then str_includes (toLowerCase H (case ttl of None \<Rightarrow> [] | Some x \<Rightarrow> x)) (toLowerCase H query)
      else True)"

text \<open>
  The bounds \<open>s\<close> and \<open>e\<close> are \<open>null\<close> (\<open>None\<close>) or a date, which may be invalid.
\<close>

definition inRange :: "(int \<Rightarrow> bool \<Rightarrow> int) \<Rightarrow> time_value option \<Rightarrow> time_value option \<Rightarrow> int option \<Rightarrow> bool" where
  "inRange tza s e ts =
     (if s = None \<and> e = None then True
      else case ts of
        None \<Rightarrow> False
      | Some t \<Rightarrow>
          if (case s of None \<Rightarrow> False | Some sd \<Rightarrow> date_less (Some t) sd) then False
          else (case e of
                  None \<Rightarrow> True
                | Some ed \<Rightarrow>
                    let endOfDay = setHours_23_59_59_999 tza ed
                    in if date_less endOfDay (Some t) then False else True))"

definition filtered :: "host \<Rightarrow> jsrecord list \<Rightarrow> jsstring \<Rightarrow> jsstring \<Rightarrow> jsstring \<Rightarrow> jsrecord list" where
  "filtered H data startDate endDate query =
     (let s = (if startDate \<noteq> [] then Some (new_Date H startDate) else None);
          e = (if endDate \<noteq> [] then Some (new_Date H endDate) else None)
      in filter (\<lambda>rw. matchesText H query (title rw) \<and> inRange (local_tza H) s e (tStart H rw)) data)"

section \<open>Vocabulary of the properties\<close>

text \<open>The local calendar day of an instant and the time of day within it.\<close>

definition local_day :: "(int \<Rightarrow> bool \<Rightarrow> int) \<Rightarrow> int \<Rightarrow> int" where
  "local_day tza t = (t + tza t True) div msPerDay"

definition local_time_of_day :: "(int \<Rightarrow> bool \<Rightarrow> int) \<Rightarrow> int \<Rightarrow> int" where
  "local_time_of_day tza t = (t + tza t True) mod msPerDay"

text \<open>
  Where local time is UTC plus a constant \<open>c\<close>: the instant at which the local
  calendar day of \<open>t\<close> reaches 23:59:59.999.
\<close>

definition end_of_local_day :: "int \<Rightarrow> int \<Rightarrow> int" where
  "end_of_local_day c t = ((t + c) div msPerDay) * msPerDay + (msPerDay - 1) - c"

text \<open>The first non-empty value under a list of candidate keys, empty if there is none.\<close>

definition first_non_empty :: "jsrecord \<Rightarrow> jsstring list \<Rightarrow> jsstring" where
  "first_non_empty rw ks =
     (case filter (\<lambda>v. v \<noteq> []) (List.map_filter rw ks) of [] \<Rightarrow> [] | v # _ \<Rightarrow> v)"

text \<open>The first value under a list of candidate keys that parses as a date.\<close>

definition first_valid_date :: "host \<Rightarrow> jsrecord \<Rightarrow> jsstring list \<Rightarrow> int option" where
  "first_valid_date H rw ks =
     (case List.map_filter (\<lambda>k. parseDate H (rw k)) ks of [] \<Rightarrow> None | t # _ \<Rightarrow> Some t)"

text \<open>The data rows that \<open>parseCSV\<close> keeps, and the header row.\<close>

definition header_row :: "jsstring \<Rightarrow> jsstring list" where
  "header_row csvText = (case parse_rows csvText of [] \<Rightarrow> [] | headers # _ \<Rightarrow> headers)"

lemmas scan_defs = init_def lookahead_def DQUOTE_def COMMA_def LF_def CR_def js_def
lemmas csv_defs = parseCSV_def records_of_rows_def parse_rows_def header_row_def to_record_def
  assign_def keep_row_def col_at_def trim_def is_white_space_def enumerate_eq_zip scan_defs

text \<open>
  A cell written as a quoted field: the content between two double quotes, each
  double quote of the content doubled.
\<close>

definition quoted :: "jsstring \<Rightarrow> jsstring" where
  "quoted s = DQUOTE # concat (map (\<lambda>c. if c = DQUOTE then [DQUOTE, DQUOTE] else [c]) s) @ [DQUOTE]"

text \<open>
  Two hosts with a \<open>Date\<close> constructor that knows a few strings and reads them as
  ECMAScript prescribes, a date without a time as midnight UTC and a date with a time
  and no offset as local time: one in UTC, one five hours behind UTC all year.
  \<open>toLowerCase\<close> is given on ASCII.
\<close>

definition ascii_lower :: "jsstring \<Rightarrow> jsstring" where
  "ascii_lower s = map (\<lambda>c. if 0x41 \<le> c \<and> c \<le> 0x5A then c + 0x20 else c) s"

definition utc_host :: host where
  "utc_host =
     \<lparr>new_Date = (\<lambda>s. if s = js ''2024-01-15'' then Some 1705276800000
                      else if s = js ''2024-01-15T23:59:00'' then Some 1705363140000
                      else if s = js ''2024-01-16T00:01:00'' then Some 1705363260000
                      else if s = js ''2024-01-14T12:00:00'' then Some 1705233600000
                      else None),
      local_tza = (\<lambda>t isUTC. 0),
      toLowerCase = ascii_lower\<rparr>"

definition west_host :: host where
  "west_host =
     \<lparr>new_Date = (\<lambda>s. if s = js ''2024-01-15'' then Some 1705276800000
                      else if s = js ''2024-01-15T23:59:00'' then Some 1705381140000
                      else None),
      local_tza = (\<lambda>t isUTC. - 18000000),
      toLowerCase = ascii_lower\<rparr>"

lemmas filter_defs = filtered_def matchesText_def inRange_def title_def tStart_def parseDate_def
  or_string_def or_date_def date_less_def setHours_23_59_59_999_def time_clip_def valid_time_def
  LocalTime_def UTC_def Day_def make_date_def make_time_def msPerDay_def
  utc_host_def west_host_def ascii_lower_def js_def

section \<open>The scanner\<close>

lemma special_distinct [simp]:
  "DQUOTE \<noteq> COMMA" "DQUOTE \<noteq> LF" "DQUOTE \<noteq> CR" "COMMA \<noteq> LF" "COMMA \<noteq> CR" "LF \<noteq> CR"
  "COMMA \<noteq> DQUOTE" "LF \<noteq> DQUOTE" "CR \<noteq> DQUOTE" "LF \<noteq> COMMA" "CR \<noteq> COMMA" "CR \<noteq> LF"
  by (simp_all add: DQUOTE_def COMMA_def LF_def CR_def)

lemma scan_quoted_escape:
  "inQuotes st \<Longrightarrow> scan st (DQUOTE # DQUOTE # cs) = scan (st\<lparr>cell := cell st @ [DQUOTE]\<rparr>) cs"
  by (simp add: lookahead_def)

lemma scan_quoted_close:
  "inQuotes st \<Longrightarrow> lookahead cs \<noteq> Some DQUOTE \<Longrightarrow> scan st (DQUOTE # cs) = scan (st\<lparr>inQuotes := False\<rparr>) cs"
  by simp

lemma scan_quoted_literal:
  "inQuotes st \<Longrightarrow> c \<noteq> DQUOTE \<Longrightarrow> scan st (c # cs) = scan (st\<lparr>cell := cell st @ [c]\<rparr>) cs"
  by simp

lemma scan_unquoted_CR:
  "\<not> inQuotes st \<Longrightarrow> scan st (CR # cs) = scan st cs"
  by simp

lemma lookahead_append:
  "lookahead ys \<noteq> Some DQUOTE \<Longrightarrow> lookahead (xs @ ys) = Some DQUOTE \<longleftrightarrow> lookahead xs = Some DQUOTE"
  by (cases xs) (simp_all add: lookahead_def)

lemma scan_append:
  "lookahead ys \<noteq> Some DQUOTE \<Longrightarrow> scan st (xs @ ys) = scan (scan st xs) ys"
proof (induction st xs rule: scan.induct)
  case (1 st)
  then show ?case by simp
next
  case (2 st ch rest)
  show ?case
  proof (cases "inQuotes st \<and> ch = DQUOTE \<and> lookahead rest = Some DQUOTE")
    case True
    then obtain r where "rest = DQUOTE # r"
      by (cases rest) (simp_all add: lookahead_def)
    with True 2 show ?thesis
      by (simp add: lookahead_def)
  next
    case False
    with 2 show ?thesis
      by (simp add: lookahead_append)
  qed
qed

lemma scan_drop_CR:
  "\<forall>c\<in>set csv. c \<noteq> DQUOTE \<Longrightarrow> \<not> inQuotes st \<Longrightarrow> scan st (filter (\<lambda>c. c \<noteq> CR) csv) = scan st csv"
  by (induction csv arbitrary: st) simp_all

lemma scan_quoted_body:
  "inQuotes st \<Longrightarrow> lookahead rest \<noteq> Some DQUOTE \<Longrightarrow>
   scan st (concat (map (\<lambda>c. if c = DQUOTE then [DQUOTE, DQUOTE] else [c]) s) @ DQUOTE # rest) =
   scan (st\<lparr>cell := cell st @ s, inQuotes := False\<rparr>) rest"
proof (induction s arbitrary: st)
  case Nil
  then show ?case by simp
next
  case (Cons c s)
  show ?case
  proof (cases "c = DQUOTE")
    case True
    with Cons.prems Cons.IH [of "st\<lparr>cell := cell st @ [DQUOTE]\<rparr>"] show ?thesis
      by (simp add: lookahead_def)
  next
    case False
    with Cons.prems Cons.IH [of "st\<lparr>cell := cell st @ [c]\<rparr>"] show ?thesis
      by simp
  qed
qed

lemma scan_quoted:
  "\<not> inQuotes st \<Longrightarrow> lookahead rest \<noteq> Some DQUOTE \<Longrightarrow>
   scan st (quoted s @ rest) = scan (st\<lparr>cell := cell st @ s\<rparr>) rest"
proof -
  assume unq: "\<not> inQuotes st" and la: "lookahead rest \<noteq> Some DQUOTE"
  have "st\<lparr>cell := cell st @ s, inQuotes := False\<rparr> = st\<lparr>cell := cell st @ s\<rparr>"
    using unq by (cases st) simp
  with unq la scan_quoted_body [of "st\<lparr>inQuotes := True\<rparr>" rest s] show ?thesis
    by (simp add: quoted_def)
qed

lemma parse_rows_drop_CR:
  assumes "\<forall>c\<in>set csv. c \<noteq> DQUOTE"
  shows "parse_rows (filter (\<lambda>c. c \<noteq> CR) csv) = parse_rows csv"
  using scan_drop_CR [OF assms, of init] by (simp add: parse_rows_def init_def)

lemma parse_rows_pending:
  "cell (scan init csv) \<noteq> [] \<or> row (scan init csv) \<noteq> [] \<Longrightarrow>
   parse_rows csv = rows (scan init csv) @ [row (scan init csv) @ [cell (scan init csv)]]"
  by (auto simp: parse_rows_def Let_def)

lemma parse_rows_LF:
  assumes "\<not> inQuotes (scan init csv)"
  shows "parse_rows (csv @ [LF]) = rows (scan init csv) @ [row (scan init csv) @ [cell (scan init csv)]]"
proof -
  have "lookahead [LF] \<noteq> Some DQUOTE" by (simp add: lookahead_def)
  then have "scan init (csv @ [LF]) = scan (scan init csv) [LF]" by (rule scan_append)
  with assms show ?thesis by (simp add: parse_rows_def)
qed

section \<open>Rows to records\<close>

lemma trim_Nil [simp]: "trim [] = []"
  by (simp add: trim_def)

lemma col_at_beyond [simp]: "length cols \<le> idx \<Longrightarrow> col_at cols idx = []"
  by (simp add: col_at_def)

lemma col_at_take: "idx < n \<Longrightarrow> col_at (take n cols) idx = col_at cols idx"
  by (simp add: col_at_def)

lemma to_record_Nil [simp]: "to_record [] cols = Map.empty"
  by (simp add: to_record_def)

lemma to_record_snoc:
  "to_record (hs @ [h]) cols = assign (to_record hs cols) (trim h) (trim (col_at cols (length hs)))"
  by (simp add: to_record_def enumerate_append_eq)

lemma to_record_proto: "to_record headers cols (js ''__proto__'') = None"
  by (induction headers rule: rev_induct) (simp_all add: to_record_snoc assign_def)

lemma dom_assign:
  "dom (assign obj k v) = (if k = js ''__proto__'' then dom obj else insert k (dom obj))"
  by (simp add: assign_def)

lemma dom_to_record: "dom (to_record headers cols) = set (map trim headers) - {js ''__proto__''}"
  by (induction headers rule: rev_induct) (auto simp: to_record_snoc dom_assign)

lemma to_record_take:
  "length headers \<le> n \<Longrightarrow> to_record headers (take n cols) = to_record headers cols"
  by (induction headers rule: rev_induct) (simp_all add: to_record_snoc col_at_take)

lemma to_record_missing:
  "idx < length headers \<Longrightarrow> length cols \<le> idx \<Longrightarrow> trim (headers ! idx) \<noteq> js ''__proto__'' \<Longrightarrow>
   to_record headers cols (trim (headers ! idx)) = Some []"
proof (induction headers rule: rev_induct)
  case Nil
  then show ?case by simp
next
  case (snoc h hs)
  show ?case
  proof (cases "idx = length hs")
    case True
    with snoc.prems show ?thesis by (simp add: to_record_snoc assign_def)
  next
    case False
    with snoc.prems have lt: "idx < length hs" by simp
    with snoc.prems have "length cols \<le> length hs" by simp
    with snoc lt show ?thesis by (simp add: to_record_snoc assign_def nth_append)
  qed
qed

lemma to_record_last_wins:
  "idx < length headers \<Longrightarrow> trim (headers ! idx) \<noteq> js ''__proto__'' \<Longrightarrow>
   \<forall>j. idx < j \<and> j < length headers \<longrightarrow> trim (headers ! j) \<noteq> trim (headers ! idx) \<Longrightarrow>
   to_record headers cols (trim (headers ! idx)) = Some (trim (col_at cols idx))"
proof (induction headers rule: rev_induct)
  case Nil
  then show ?case by simp
next
  case (snoc h hs)
  show ?case
  proof (cases "idx = length hs")
    case True
    with snoc.prems(2) show ?thesis by (simp add: to_record_snoc assign_def)
  next
    case False
    with snoc.prems have lt: "idx < length hs" by simp
    have ne: "trim h \<noteq> trim (hs ! idx)"
      using snoc.prems(3)[rule_format, of "length hs"] lt by (simp add: nth_append)
    have np: "trim (hs ! idx) \<noteq> js ''__proto__''"
      using snoc.prems(2) lt by (simp add: nth_append)
    have "\<forall>j. idx < j \<and> j < length hs \<longrightarrow> trim (hs ! j) \<noteq> trim (hs ! idx)"
      using snoc.prems(3) lt by (auto simp: nth_append split: if_splits)
    with snoc.IH lt ne np show ?thesis by (simp add: to_record_snoc assign_def nth_append)
  qed
qed

lemma card_dom_to_record_le: "card (dom (to_record headers cols)) \<le> length headers"
proof -
  have "card (set (map trim headers) - {js ''__proto__''}) \<le> card (set (map trim headers))"
    by (rule card_mono) auto
  also have "\<dots> \<le> length headers"
    using card_length [of "map trim headers"] by simp
  finally show ?thesis by (simp only: dom_to_record)
qed

lemma card_dom_to_record_eq_iff:
  "card (dom (to_record headers cols)) = length headers \<longleftrightarrow>
     distinct (map trim headers) \<and> js ''__proto__'' \<notin> set (map trim headers)"
proof (cases "js ''__proto__'' \<in> set (map trim headers)")
  case True
  then have "card (set (map trim headers) - {js ''__proto__''}) < card (set (map trim headers))"
    by (intro psubset_card_mono) auto
  also have "\<dots> \<le> length headers"
    using card_length [of "map trim headers"] by simp
  finally show ?thesis using True by (simp only: dom_to_record) simp
next
  case False
  then have "set (map trim headers) - {js ''__proto__''} = set (map trim headers)" by blast
  then have "card (dom (to_record headers cols)) = card (set (map trim headers))"
    by (simp only: dom_to_record)
  with False card_distinct [of "map trim headers"] distinct_card [of "map trim headers"]
  show ?thesis by auto
qed

lemma set_parseCSV:
  "set (parseCSV csv) = to_record (header_row csv) ` {cols \<in> set (drop 1 (parse_rows csv)). keep_row cols}"
  by (auto simp: parseCSV_def records_of_rows_def header_row_def split: list.splits)

lemma keep_row_blank: "\<forall>v\<in>set r. v = [] \<Longrightarrow> \<not> keep_row r"
  by (simp add: keep_row_def list_ex_iff)

lemma keep_row_eq: "keep_row = (\<lambda>r. \<exists>v\<in>set r. v \<noteq> [])"
  by (auto simp: keep_row_def list_ex_iff fun_eq_iff)

lemma records_of_rows_blank:
  "\<forall>v\<in>set r. v = [] \<Longrightarrow>
   records_of_rows (h # before @ r # after) = records_of_rows (h # before @ after)"
  by (simp add: records_of_rows_def keep_row_blank)

lemma length_parseCSV:
  "length (parseCSV csv) = length (filter (\<lambda>r. \<exists>v\<in>set r. v \<noteq> []) (drop 1 (parse_rows csv)))"
  by (simp add: parseCSV_def records_of_rows_def keep_row_eq split: list.splits)

lemma mem_parseCSV_dom:
  "r \<in> set (parseCSV csv) \<Longrightarrow> dom r = set (map trim (header_row csv)) - {js ''__proto__''}"
proof -
  assume "r \<in> set (parseCSV csv)"
  then obtain cols where "r = to_record (header_row csv) cols"
    by (auto simp: set_parseCSV)
  then show ?thesis by (simp only: dom_to_record)
qed

lemma mem_parseCSV_card:
  assumes "r \<in> set (parseCSV csv)"
  shows "card (dom r) \<le> length (header_row csv)"
    and "card (dom r) = length (header_row csv) \<longleftrightarrow>
         distinct (map trim (header_row csv)) \<and> js ''__proto__'' \<notin> set (map trim (header_row csv))"
proof -
  from assms obtain cols where r: "r = to_record (header_row csv) cols"
    by (auto simp: set_parseCSV)
  show "card (dom r) \<le> length (header_row csv)"
    unfolding r by (rule card_dom_to_record_le)
  show "card (dom r) = length (header_row csv) \<longleftrightarrow>
         distinct (map trim (header_row csv)) \<and> js ''__proto__'' \<notin> set (map trim (header_row csv))"
    unfolding r by (rule card_dom_to_record_eq_iff)
qed

text \<open>
  Cells beyond the last header column are ignored: the record of a row is the record
  of the row cut to the length of the header row, and its keys are the trimmed header
  names other than \<open>__proto__\<close>.
\<close>

lemma extra_cells_ignored:
  "to_record headers cols = to_record headers (take (length headers) cols) \<and>
   dom (to_record headers cols) = set (map trim headers) - {js ''__proto__''} \<and>
   to_record headers cols (js ''__proto__'') = None"
  using to_record_take [of headers "length headers" cols] dom_to_record [of headers cols]
    to_record_proto [of headers cols]
  by simp

section \<open>The filter predicate\<close>

lemma filtered_iff:
  "rw \<in> set (filtered H data startDate endDate query) \<longleftrightarrow>
     rw \<in> set data \<and> matchesText H query (title rw) \<and>
     inRange (local_tza H)
       (if startDate \<noteq> [] then Some (new_Date H startDate) else None)
       (if endDate \<noteq> [] then Some (new_Date H endDate) else None)
       (tStart H rw)"
  by (simp add: filtered_def Let_def)

lemma filtered_no_criteria: "filtered H data [] [] [] = data"
  by (simp add: filtered_def matchesText_def inRange_def)

lemma inRange_no_bounds: "inRange tza None None ts"
  by (simp add: inRange_def)

lemma inRange_split:
  "inRange tza s (Some hi) (Some t) \<longleftrightarrow>
     inRange tza s None (Some t) \<and> inRange tza None (Some hi) (Some t)"
  by (auto simp: inRange_def Let_def split: option.splits)

lemma inRange_upper_only:
  "inRange tza None (Some hi) (Some t) \<longleftrightarrow> \<not> date_less (setHours_23_59_59_999 tza hi) (Some t)"
  by (simp add: inRange_def)

lemma title_first_non_empty:
  "(case title rw of None \<Rightarrow> [] | Some x \<Rightarrow> x) =
     first_non_empty rw [js ''Evento/titulo'', js ''Evento'', js ''titulo'']"
  by (simp add: title_def or_string_def first_non_empty_def List.map_filter_simps split: option.splits)

lemma tStart_first_valid_date:
  "tStart H rw = first_valid_date H rw [js ''Timestamp Inicio'', js ''Timestamp inicio'', js ''Inicio'']"
  by (simp add: tStart_def or_date_def first_valid_date_def List.map_filter_simps split: option.splits)

lemma parseDate_eq:
  "parseDate H v = (case v of None \<Rightarrow> None | Some str \<Rightarrow> if str = [] then None else new_Date H str)"
  by (simp add: parseDate_def split: option.splits)

lemma filtered_upper:
  assumes "endDate \<noteq> []" "tStart H rw = Some t"
  shows "rw \<in> set (filtered H data startDate endDate query) \<longleftrightarrow>
     rw \<in> set (filtered H data startDate [] query) \<and>
     \<not> date_less (setHours_23_59_59_999 (local_tza H) (new_Date H endDate)) (Some t)"
  using assms inRange_split [of "local_tza H" _ "new_Date H endDate" t]
    inRange_upper_only [of "local_tza H" "new_Date H endDate" t]
  by (auto simp: filtered_iff)

lemma inRange_split_lower:
  "inRange tza (Some (Some lo)) e (Some t) \<longleftrightarrow> \<not> t < lo \<and> inRange tza None e (Some t)"
  by (auto simp: inRange_def date_less_def Let_def split: option.splits)

lemma filtered_lower:
  assumes "startDate \<noteq> []" "new_Date H startDate = Some lo" "tStart H rw = Some t"
  shows "rw \<in> set (filtered H data startDate endDate query) \<longleftrightarrow>
     rw \<in> set (filtered H data [] endDate query) \<and> \<not> t < lo"
  using assms inRange_split_lower [of "local_tza H" lo _ t]
  by (auto simp: filtered_iff)

lemma filtered_no_start:
  assumes "startDate \<noteq> [] \<or> endDate \<noteq> []" "tStart H rw = None"
  shows "rw \<notin> set (filtered H data startDate endDate query)"
  using assms by (auto simp: filtered_iff inRange_def)

lemma filtered_text_only:
  "filtered H data [] [] query = filter (\<lambda>rw. matchesText H query (title rw)) data"
  by (simp add: filtered_def inRange_def)

section \<open>The upper bound where local time is UTC plus a constant\<close>

lemma setHours_constant_offset:
  assumes "\<forall>t u. tza t u = c"
  shows "setHours_23_59_59_999 tza (Some t) = time_clip (end_of_local_day c t)"
  using assms
  by (simp add: setHours_23_59_59_999_def LocalTime_def UTC_def Day_def make_date_def make_time_def
      end_of_local_day_def msPerDay_def)

lemma end_of_local_day_ge: "t \<le> end_of_local_day c t"
proof -
  have "(t + c) mod msPerDay < msPerDay" by (simp add: msPerDay_def)
  moreover have "(t + c) div msPerDay * msPerDay = t + c - (t + c) mod msPerDay"
    by (simp add: minus_mod_eq_div_mult)
  ultimately show ?thesis unfolding end_of_local_day_def by linarith
qed

lemma end_of_local_day_props:
  assumes "\<forall>t u. tza t u = c"
  shows "local_day tza (end_of_local_day c t) = local_day tza t \<and>
   local_time_of_day tza (end_of_local_day c t) = make_time 23 59 59 999"
  using assms
  by (simp add: local_day_def local_time_of_day_def end_of_local_day_def make_time_def msPerDay_def)

lemma inRange_upper:
  assumes "\<forall>t u. tza t u = c" "valid_time t" "valid_time hi"
  shows "inRange tza None (Some (Some hi)) (Some t) \<longleftrightarrow> t \<le> end_of_local_day c hi"
proof (cases "valid_time (end_of_local_day c hi)")
  case True
  then show ?thesis
    by (auto simp: inRange_upper_only setHours_constant_offset [OF assms(1)] time_clip_def date_less_def)
next
  case False
  have "hi \<le> end_of_local_day c hi" by (rule end_of_local_day_ge)
  with False assms have "t \<le> end_of_local_day c hi"
    by (simp add: valid_time_def)
  with False show ?thesis
    by (simp add: inRange_upper_only setHours_constant_offset [OF assms(1)] time_clip_def date_less_def)
qed

lemma same_day_2359:
  assumes "\<forall>t u. tza t u = c"
    "local_day tza t = local_day tza hi" "local_time_of_day tza t = make_time 23 59 0 0"
  shows "t \<le> end_of_local_day c hi"
proof -
  have "(t + c) div msPerDay * msPerDay + (t + c) mod msPerDay = t + c" by simp
  with assms show ?thesis
    by (simp add: end_of_local_day_def local_day_def local_time_of_day_def make_time_def msPerDay_def)
qed

lemma next_day_0001:
  assumes "\<forall>t u. tza t u = c"
    "local_day tza t = local_day tza hi + 1" "local_time_of_day tza t = make_time 0 1 0 0"
  shows "\<not> t \<le> end_of_local_day c hi"
proof -
  have "(t + c) div msPerDay * msPerDay + (t + c) mod msPerDay = t + c" by simp
  with assms show ?thesis
    by (simp add: end_of_local_day_def local_day_def local_time_of_day_def make_time_def msPerDay_def algebra_simps)
qed

text \<open>
  On such a host the upper bound is compared as 23:59:59.999 of the local day in which
  the instant of the bound falls: a record is retained exactly when the other criteria
  retain it and its start instant is not after that. Which day this is follows from
  the instant the host's \<open>Date\<close> constructor yields for the bound's string.
\<close>

lemma upper_bound_constant_offset:
  assumes "\<forall>t u. local_tza H t u = c"
    and "endDate \<noteq> []" and "new_Date H endDate = Some hi" and "valid_time hi"
    and "tStart H rw = Some t" and "valid_time t"
  shows
   "(rw \<in> set (filtered H data startDate endDate query) \<longleftrightarrow>
       rw \<in> set (filtered H data startDate [] query) \<and> t \<le> end_of_local_day c hi) \<and>
    (local_day (local_tza H) t = local_day (local_tza H) hi \<and>
     local_time_of_day (local_tza H) t = make_time 23 59 0 0 \<longrightarrow>
       (rw \<in> set (filtered H data startDate endDate query) \<longleftrightarrow>
          rw \<in> set (filtered H data startDate [] query))) \<and>
    (local_day (local_tza H) t = local_day (local_tza H) hi + 1 \<and>
     local_time_of_day (local_tza H) t = make_time 0 1 0 0 \<longrightarrow>
       rw \<notin> set (filtered H data startDate endDate query))"
proof -
  have c: "inRange (local_tza H) None (Some (Some hi)) (Some t) \<longleftrightarrow> t \<le> end_of_local_day c hi"
    using assms(1,6,4) by (rule inRange_upper)
  have up: "rw \<in> set (filtered H data startDate endDate query) \<longleftrightarrow>
       rw \<in> set (filtered H data startDate [] query) \<and> t \<le> end_of_local_day c hi"
    using filtered_upper [OF assms(2,5), of data startDate query] c assms(3)
    by (simp add: inRange_upper_only)
  have a: "t \<le> end_of_local_day c hi"
    if "local_day (local_tza H) t = local_day (local_tza H) hi"
      "local_time_of_day (local_tza H) t = make_time 23 59 0 0"
    using assms(1) that by (rule same_day_2359)
  have b: "\<not> t \<le> end_of_local_day c hi"
    if "local_day (local_tza H) t = local_day (local_tza H) hi + 1"
      "local_time_of_day (local_tza H) t = make_time 0 1 0 0"
    using assms(1) that by (rule next_day_0001)
  from up a b show ?thesis by blast
qed

section \<open>Properties of parseCSV and of the filter\<close>

text \<open>
  C1. Inside a quoted field, a double quote followed by a double quote adds one double
  quote to the cell and consumes both; a double quote not followed by one ends the
  quoted field; any other code unit, comma, line feed and carriage return included, is
  added to the cell. Hence a quoted field met outside quotes adds exactly its content to
  the cell, and under the headers Col1,Col2 the row "a,b","c""d" decodes to the single
  record that maps Col1 to a,b and Col2 to c"d.
\<close>

theorem quoted_field_decoding:
  "(inQuotes st \<longrightarrow> scan st (DQUOTE # DQUOTE # cs) = scan (st\<lparr>cell := cell st @ [DQUOTE]\<rparr>) cs) \<and>
   (inQuotes st \<and> lookahead cs \<noteq> Some DQUOTE \<longrightarrow>
      scan st (DQUOTE # cs) = scan (st\<lparr>inQuotes := False\<rparr>) cs) \<and>
   (inQuotes st \<and> c \<noteq> DQUOTE \<longrightarrow> scan st (c # cs) = scan (st\<lparr>cell := cell st @ [c]\<rparr>) cs) \<and>
   (\<not> inQuotes st \<and> lookahead cs \<noteq> Some DQUOTE \<longrightarrow>
      scan st (quoted s @ cs) = scan (st\<lparr>cell := cell st @ s\<rparr>) cs) \<and>
   parseCSV (js ''Col1,Col2'' @ [LF] @ quoted (js ''a,b'') @ [COMMA] @ quoted (js ''c'' @ [DQUOTE] @ js ''d''))
     = [[js ''Col1'' \<mapsto> js ''a,b'', js ''Col2'' \<mapsto> js ''c'' @ [DQUOTE] @ js ''d'']] \<and>
   quoted (js ''a,b'') @ [COMMA] @ quoted (js ''c'' @ [DQUOTE] @ js ''d'')
     = [DQUOTE] @ js ''a,b'' @ [DQUOTE, COMMA, DQUOTE] @ js ''c'' @ [DQUOTE, DQUOTE] @ js ''d'' @ [DQUOTE]"
proof -
  have "parseCSV (js ''Col1,Col2'' @ [LF] @ quoted (js ''a,b'') @ [COMMA] @ quoted (js ''c'' @ [DQUOTE] @ js ''d''))
     = [[js ''Col1'' \<mapsto> js ''a,b'', js ''Col2'' \<mapsto> js ''c'' @ [DQUOTE] @ js ''d'']]"
    by (simp add: csv_defs quoted_def)
  moreover have "quoted (js ''a,b'') @ [COMMA] @ quoted (js ''c'' @ [DQUOTE] @ js ''d'')
     = [DQUOTE] @ js ''a,b'' @ [DQUOTE, COMMA, DQUOTE] @ js ''c'' @ [DQUOTE, DQUOTE] @ js ''d'' @ [DQUOTE]"
    by (simp add: quoted_def js_def DQUOTE_def)
  ultimately show ?thesis
    using scan_quoted_escape [of st cs] scan_quoted_close [of st cs] scan_quoted_literal [of st c cs]
      scan_quoted [of st cs s]
    by blast
qed

theorem quoted_field_decoding_witness:
  "inQuotes (init\<lparr>inQuotes := True\<rparr>) \<and> lookahead [LF] \<noteq> Some DQUOTE \<and> COMMA \<noteq> DQUOTE \<and>
   \<not> inQuotes init \<and>
   scan (init\<lparr>inQuotes := True\<rparr>) (DQUOTE # DQUOTE # [LF]) = scan (init\<lparr>inQuotes := True, cell := [DQUOTE]\<rparr>) [LF] \<and>
   scan (init\<lparr>inQuotes := True\<rparr>) (DQUOTE # [LF]) = scan init [LF] \<and>
   scan (init\<lparr>inQuotes := True\<rparr>) (COMMA # [LF]) = scan (init\<lparr>inQuotes := True, cell := [COMMA]\<rparr>) [LF] \<and>
   scan init (quoted [COMMA, DQUOTE, CR, LF] @ [LF]) = scan (init\<lparr>cell := [COMMA, DQUOTE, CR, LF]\<rparr>) [LF]"
  using quoted_field_decoding [of "init\<lparr>inQuotes := True\<rparr>" "[LF]" COMMA "[COMMA, DQUOTE, CR, LF]"]
    quoted_field_decoding [where st = init and cs = "[LF]" and c = COMMA and s = "[COMMA, DQUOTE, CR, LF]"]
  by (simp add: init_def lookahead_def del: scan.simps)

text \<open>
  C2. The page sets the upper bound from a date without a time, which the \<open>Date\<close>
  constructor reads as midnight UTC; the filter widens the instant to 23:59:59.999 of
  the local day in which it falls. On a host five hours behind UTC the instant of the
  bound 2024-01-15 is 19:00 of 14 January local time, the widened bound is 14 January
  23:59:59.999 local time, and a record that starts on 15 January at 23:59:00 local
  time, the date of the bound, is not retained. On a host in UTC the record that starts
  on 15 January at 23:59:00 is retained.
\<close>

theorem upper_bound_behind_utc:
  "new_Date west_host (js ''2024-01-15'') = Some (make_date 19737 0) \<and>
   local_day (local_tza west_host) (make_date 19737 0) = 19736 \<and>
   local_time_of_day (local_tza west_host) (make_date 19737 0) = make_time 19 0 0 0 \<and>
   setHours_23_59_59_999 (local_tza west_host) (Some (make_date 19737 0)) = Some 1705294799999 \<and>
   local_day (local_tza west_host) 1705294799999 = 19736 \<and>
   local_time_of_day (local_tza west_host) 1705294799999 = make_time 23 59 59 999 \<and>
   tStart west_host [js ''Inicio'' \<mapsto> js ''2024-01-15T23:59:00''] = Some 1705381140000 \<and>
   local_day (local_tza west_host) 1705381140000 = 19737 \<and>
   local_time_of_day (local_tza west_host) 1705381140000 = make_time 23 59 0 0 \<and>
   filtered west_host [[js ''Inicio'' \<mapsto> js ''2024-01-15T23:59:00'']] [] (js ''2024-01-15'') [] = [] \<and>
   filtered utc_host [[js ''Inicio'' \<mapsto> js ''2024-01-15T23:59:00'']] [] (js ''2024-01-15'') [] =
     [[js ''Inicio'' \<mapsto> js ''2024-01-15T23:59:00'']]"
  by (simp add: filter_defs local_day_def local_time_of_day_def)

text \<open>
  C3, as claimed: every record has exactly as many keys as the header row has columns.
  Under the headers A,A the row 1,2 decodes to a record with the single key A, the
  header row having two columns.
\<close>

theorem duplicate_headers_counterexample:
  "parseCSV (js ''A,A'' @ [LF] @ js ''1,2'' @ [LF]) = [[js ''A'' \<mapsto> js ''2'']] \<and>
   parse_rows (js ''A,A'' @ [LF] @ js ''1,2'' @ [LF]) = [[js ''A'', js ''A''], [js ''1'', js ''2'']] \<and>
   header_row (js ''A,A'' @ [LF] @ js ''1,2'' @ [LF]) = [js ''A'', js ''A''] \<and>
   card (dom (parseCSV (js ''A,A'' @ [LF] @ js ''1,2'' @ [LF]) ! 0)) = 1 \<and>
   length (header_row (js ''A,A'' @ [LF] @ js ''1,2'' @ [LF])) = 2"
proof -
  have p: "parse_rows (js ''A,A'' @ [LF] @ js ''1,2'' @ [LF]) = [[js ''A'', js ''A''], [js ''1'', js ''2'']]"
    by (simp add: parse_rows_def scan_defs)
  have h: "header_row (js ''A,A'' @ [LF] @ js ''1,2'' @ [LF]) = [js ''A'', js ''A'']"
    by (simp add: csv_defs)
  have m: "parseCSV (js ''A,A'' @ [LF] @ js ''1,2'' @ [LF]) = [[js ''A'' \<mapsto> js ''2'']]"
    by (simp add: csv_defs)
  from p h m show ?thesis by simp
qed

text \<open>
  C3, amended. Where no trimmed header name is \<open>__proto__\<close>, the records are the
  projections of the kept data rows, and the keys of every record are exactly the
  trimmed header names: it has as many keys as there are distinct trimmed header
  names, exactly as many as the header row has columns when the trimmed names are
  pairwise distinct, and fewer otherwise. Each key maps to the trimmed cell under the
  last column of that trimmed name, and a kept data row with fewer cells than the
  header row maps the key of each header column it does not reach to the empty string.
\<close>

theorem record_keys_are_trimmed_headers:
  assumes "js ''__proto__'' \<notin> set (map trim (header_row csv))"
  shows
  "set (parseCSV csv) =
     to_record (header_row csv) ` {cols \<in> set (drop 1 (parse_rows csv)). keep_row cols} \<and>
   (r \<in> set (parseCSV csv) \<longrightarrow>
      dom r = set (map trim (header_row csv)) \<and>
      card (dom r) = card (set (map trim (header_row csv))) \<and>
      (distinct (map trim (header_row csv)) \<longrightarrow> card (dom r) = length (header_row csv)) \<and>
      (\<not> distinct (map trim (header_row csv)) \<longrightarrow> card (dom r) < length (header_row csv))) \<and>
   (cols \<in> set (drop 1 (parse_rows csv)) \<and> keep_row cols \<longrightarrow>
      to_record (header_row csv) cols \<in> set (parseCSV csv) \<and>
      (\<forall>idx. idx < length (header_row csv) \<and>
             (\<forall>j. idx < j \<and> j < length (header_row csv) \<longrightarrow>
                  trim (header_row csv ! j) \<noteq> trim (header_row csv ! idx)) \<longrightarrow>
         to_record (header_row csv) cols (trim (header_row csv ! idx)) = Some (trim (col_at cols idx))) \<and>
      (\<forall>idx. length cols \<le> idx \<and> idx < length (header_row csv) \<longrightarrow>
         to_record (header_row csv) cols (trim (header_row csv ! idx)) = Some []))"
proof -
  have np: "trim (header_row csv ! idx) \<noteq> js ''__proto__''" if "idx < length (header_row csv)" for idx
    using assms that by (metis length_map nth_map nth_mem)
  have a: "dom r = set (map trim (header_row csv))" if "r \<in> set (parseCSV csv)"
    using mem_parseCSV_dom [OF that] assms by blast
  have b: "card (dom r) = length (header_row csv)"
    if "r \<in> set (parseCSV csv)" "distinct (map trim (header_row csv))"
    using mem_parseCSV_card(2) [OF that(1)] that(2) assms by blast
  have c: "card (dom r) < length (header_row csv)"
    if "r \<in> set (parseCSV csv)" "\<not> distinct (map trim (header_row csv))"
    using mem_parseCSV_card [OF that(1)] that(2) by linarith
  have d: "to_record (header_row csv) cols \<in> set (parseCSV csv)"
    if "cols \<in> set (drop 1 (parse_rows csv))" "keep_row cols"
    using that by (auto simp: set_parseCSV)
  have e: "to_record (header_row csv) cols (trim (header_row csv ! idx)) = Some []"
    if "length cols \<le> idx" "idx < length (header_row csv)" for idx
    using to_record_missing [OF that(2,1) np [OF that(2)]] .
  have f: "to_record (header_row csv) cols (trim (header_row csv ! idx)) = Some (trim (col_at cols idx))"
    if "idx < length (header_row csv)"
      "\<forall>j. idx < j \<and> j < length (header_row csv) \<longrightarrow>
           trim (header_row csv ! j) \<noteq> trim (header_row csv ! idx)" for idx
    using to_record_last_wins [OF that(1) np [OF that(1)] that(2)] .
  from a b c d e f set_parseCSV [of csv] show ?thesis by auto
qed

theorem record_keys_are_trimmed_headers_witness:
  "js ''__proto__'' \<notin> set (map trim (header_row (js '' A ,B,B'' @ [LF] @ js ''1,2'' @ [LF]))) \<and>
   header_row (js '' A ,B,B'' @ [LF] @ js ''1,2'' @ [LF]) = [js '' A '', js ''B'', js ''B''] \<and>
   [js ''1'', js ''2''] \<in> set (drop 1 (parse_rows (js '' A ,B,B'' @ [LF] @ js ''1,2'' @ [LF]))) \<and>
   keep_row [js ''1'', js ''2''] \<and>
   parseCSV (js '' A ,B,B'' @ [LF] @ js ''1,2'' @ [LF]) = [[js ''A'' \<mapsto> js ''1'', js ''B'' \<mapsto> []]] \<and>
   to_record [js '' A '', js ''B'', js ''B''] [js ''1'', js ''2''] = [js ''A'' \<mapsto> js ''1'', js ''B'' \<mapsto> []] \<and>
   \<not> distinct (map trim [js '' A '', js ''B'', js ''B'']) \<and>
   dom [js ''A'' \<mapsto> js ''1'', js ''B'' \<mapsto> []] = set (map trim [js '' A '', js ''B'', js ''B'']) \<and>
   card (dom [js ''A'' \<mapsto> js ''1'', js ''B'' \<mapsto> []]) < length [js '' A '', js ''B'', js ''B''] \<and>
   length [js ''1'', js ''2''] \<le> 2 \<and> 2 < length [js '' A '', js ''B'', js ''B''] \<and>
   to_record [js '' A '', js ''B'', js ''B''] [js ''1'', js ''2''] (trim ([js '' A '', js ''B'', js ''B''] ! 2)) = Some [] \<and>
   to_record [js '' A '', js ''B'', js ''B''] [js ''1'', js ''2''] (trim ([js '' A '', js ''B'', js ''B''] ! 0)) =
     Some (trim (col_at [js ''1'', js ''2''] 0))"
proof -
  let ?csv = "js '' A ,B,B'' @ [LF] @ js ''1,2'' @ [LF]"
  let ?r = "[js ''A'' \<mapsto> js ''1'', js ''B'' \<mapsto> []]"
  have p: "parse_rows ?csv = [[js '' A '', js ''B'', js ''B''], [js ''1'', js ''2'']]"
    by (simp add: parse_rows_def scan_defs)
  have h: "header_row ?csv = [js '' A '', js ''B'', js ''B'']"
    by (simp add: csv_defs)
  have m: "parseCSV ?csv = [?r]"
    by (simp add: csv_defs)
  have t: "to_record [js '' A '', js ''B'', js ''B''] [js ''1'', js ''2''] = ?r"
    by (simp add: csv_defs)
  have tr: "trim (js '' A '') = js ''A''" "trim (js ''B'') = js ''B''" "js ''A'' \<noteq> js ''B''"
    "js ''A'' \<noteq> js ''__proto__''" "js ''B'' \<noteq> js ''__proto__''" "trim (js ''1'') = js ''1''"
    by (simp_all add: csv_defs)
  have k: "keep_row [js ''1'', js ''2'']" by (simp add: csv_defs)
  have c: "col_at [js ''1'', js ''2''] 0 = js ''1''" by (simp add: col_at_def)
  have hyp: "js ''__proto__'' \<notin> set (map trim (header_row ?csv))"
    by (simp add: csv_defs)
  note inst = record_keys_are_trimmed_headers [OF hyp, of ?r "[js ''1'', js ''2'']"]
  have mem: "?r \<in> set (parseCSV ?csv)" unfolding m by simp
  have row: "[js ''1'', js ''2''] \<in> set (drop 1 (parse_rows ?csv))" unfolding p by simp
  have nd: "\<not> distinct (map trim (header_row ?csv))" unfolding h by simp
  have lt: "card (dom ?r) < length (header_row ?csv)"
    using inst mem nd by blast
  have dm: "dom ?r = set (map trim (header_row ?csv))"
    using inst mem by blast
  from hyp row k m t nd [unfolded h] dm [unfolded h] lt [unfolded h] tr c show ?thesis
    unfolding h by simp
qed

text \<open>
  C4. With at least one date bound set, a record with no start instant is rejected.
  With a lower bound set, a record with a start instant is retained exactly when the
  other criteria retain it and the instant is not strictly before the bound. With
  neither bound set the date condition holds for every record, and the filter keeps
  exactly the records whose title matches the search text.
\<close>

theorem lower_bound_and_missing_start:
  "((startDate \<noteq> [] \<or> endDate \<noteq> []) \<and> tStart H rw = None \<longrightarrow>
      rw \<notin> set (filtered H data startDate endDate query)) \<and>
   (startDate \<noteq> [] \<and> new_Date H startDate = Some lo \<and> tStart H rw = Some t \<longrightarrow>
      (rw \<in> set (filtered H data startDate endDate query) \<longleftrightarrow>
         rw \<in> set (filtered H data [] endDate query) \<and> \<not> t < lo)) \<and>
   inRange (local_tza H) None None (tStart H rw) \<and>
   filtered H data [] [] query = filter (\<lambda>rw. matchesText H query (title rw)) data"
  using filtered_no_start [of startDate endDate H rw data query]
    filtered_lower [of startDate H lo rw t data endDate query]
    inRange_no_bounds [of "local_tza H" "tStart H rw"]
    filtered_text_only [of H data query]
  by blast

theorem lower_bound_and_missing_start_witness:
  "js ''2024-01-15'' \<noteq> [] \<and>
   new_Date utc_host (js ''2024-01-15'') = Some 1705276800000 \<and>
   tStart utc_host [js ''Evento'' \<mapsto> js ''Feria''] = None \<and>
   tStart utc_host [js ''Inicio'' \<mapsto> js ''2024-01-14T12:00:00''] = Some 1705233600000 \<and>
   (1705233600000 :: int) < 1705276800000 \<and>
   [js ''Evento'' \<mapsto> js ''Feria''] \<notin> set (filtered utc_host
      [[js ''Evento'' \<mapsto> js ''Feria''], [js ''Inicio'' \<mapsto> js ''2024-01-14T12:00:00''],
       [js ''Inicio'' \<mapsto> js ''2024-01-15T23:59:00'']] (js ''2024-01-15'') [] []) \<and>
   [js ''Inicio'' \<mapsto> js ''2024-01-14T12:00:00''] \<notin> set (filtered utc_host
      [[js ''Evento'' \<mapsto> js ''Feria''], [js ''Inicio'' \<mapsto> js ''2024-01-14T12:00:00''],
       [js ''Inicio'' \<mapsto> js ''2024-01-15T23:59:00'']] (js ''2024-01-15'') [] []) \<and>
   filtered utc_host
      [[js ''Evento'' \<mapsto> js ''Feria''], [js ''Inicio'' \<mapsto> js ''2024-01-14T12:00:00''],
       [js ''Inicio'' \<mapsto> js ''2024-01-15T23:59:00'']] (js ''2024-01-15'') [] [] =
      [[js ''Inicio'' \<mapsto> js ''2024-01-15T23:59:00'']] \<and>
   filtered utc_host
      [[js ''Evento'' \<mapsto> js ''Feria''], [js ''Inicio'' \<mapsto> js ''2024-01-14T12:00:00''],
       [js ''Inicio'' \<mapsto> js ''2024-01-15T23:59:00'']] [] [] (js ''eri'') =
      [[js ''Evento'' \<mapsto> js ''Feria'']]"
proof -
  have h: "js ''2024-01-15'' \<noteq> []" "new_Date utc_host (js ''2024-01-15'') = Some 1705276800000"
    by (simp_all add: filter_defs)
  have t0: "tStart utc_host [js ''Evento'' \<mapsto> js ''Feria''] = None"
    by (simp add: filter_defs)
  have t1: "tStart utc_host [js ''Inicio'' \<mapsto> js ''2024-01-14T12:00:00''] = Some 1705233600000"
    by (simp add: filter_defs)
  have f1: "filtered utc_host
      [[js ''Evento'' \<mapsto> js ''Feria''], [js ''Inicio'' \<mapsto> js ''2024-01-14T12:00:00''],
       [js ''Inicio'' \<mapsto> js ''2024-01-15T23:59:00'']] (js ''2024-01-15'') [] [] =
      [[js ''Inicio'' \<mapsto> js ''2024-01-15T23:59:00'']]"
    by (simp add: filter_defs)
  have f2: "filtered utc_host
      [[js ''Evento'' \<mapsto> js ''Feria''], [js ''Inicio'' \<mapsto> js ''2024-01-14T12:00:00''],
       [js ''Inicio'' \<mapsto> js ''2024-01-15T23:59:00'']] [] [] (js ''eri'') =
      [[js ''Evento'' \<mapsto> js ''Feria'']]"
    by (simp add: filter_defs)
  have n0: "[js ''Evento'' \<mapsto> js ''Feria''] \<notin> set (filtered utc_host
      [[js ''Evento'' \<mapsto> js ''Feria''], [js ''Inicio'' \<mapsto> js ''2024-01-14T12:00:00''],
       [js ''Inicio'' \<mapsto> js ''2024-01-15T23:59:00'']] (js ''2024-01-15'') [] [])"
    using lower_bound_and_missing_start [of "js ''2024-01-15''" "[]" utc_host "[js ''Evento'' \<mapsto> js ''Feria'']"] h t0
    by blast
  have n1: "[js ''Inicio'' \<mapsto> js ''2024-01-14T12:00:00''] \<notin> set (filtered utc_host
      [[js ''Evento'' \<mapsto> js ''Feria''], [js ''Inicio'' \<mapsto> js ''2024-01-14T12:00:00''],
       [js ''Inicio'' \<mapsto> js ''2024-01-15T23:59:00'']] (js ''2024-01-15'') [] [])"
    using lower_bound_and_missing_start [of "js ''2024-01-15''" "[]" utc_host
        "[js ''Inicio'' \<mapsto> js ''2024-01-14T12:00:00'']" _ _ 1705276800000 1705233600000] h t1
    by simp
  from h t0 t1 f1 f2 n0 n1 show ?thesis by simp
qed

text \<open>
  C5. With no search text and neither date bound, the filter returns the records it
  was given, in the same order; applying it twice is the same as applying it once.
\<close>

theorem no_criteria_identity:
  "filtered H data [] [] [] = data \<and>
   filtered H (filtered H data [] [] []) [] [] [] = filtered H data [] [] []"
  by (simp add: filtered_no_criteria)

text \<open>
  C6. A carriage return met outside a quoted field is dropped and adds nothing to any
  cell or row. On a text without double quotes, removing every carriage return leaves
  the decoded records unchanged, so CR LF and bare LF line endings decode alike: the
  text H1,H2 CR LF q1,q2 CR LF and the text H1,H2 LF q1,q2 LF both decode to the single
  record that maps H1 to q1 and H2 to q2.
\<close>

theorem carriage_return_discarded:
  "(\<not> inQuotes st \<longrightarrow> scan st (CR # cs) = scan st cs) \<and>
   ((\<forall>c\<in>set csv. c \<noteq> DQUOTE) \<longrightarrow> parseCSV (filter (\<lambda>c. c \<noteq> CR) csv) = parseCSV csv) \<and>
   parseCSV (js ''H1,H2'' @ [CR, LF] @ js ''q1,q2'' @ [CR, LF]) =
     parseCSV (js ''H1,H2'' @ [LF] @ js ''q1,q2'' @ [LF]) \<and>
   parseCSV (js ''H1,H2'' @ [LF] @ js ''q1,q2'' @ [LF]) =
     [[js ''H1'' \<mapsto> js ''q1'', js ''H2'' \<mapsto> js ''q2'']]"
proof -
  have "parseCSV (js ''H1,H2'' @ [CR, LF] @ js ''q1,q2'' @ [CR, LF]) =
     parseCSV (js ''H1,H2'' @ [LF] @ js ''q1,q2'' @ [LF])"
    by (simp add: csv_defs)
  moreover have "parseCSV (js ''H1,H2'' @ [LF] @ js ''q1,q2'' @ [LF]) =
     [[js ''H1'' \<mapsto> js ''q1'', js ''H2'' \<mapsto> js ''q2'']]"
    by (simp add: csv_defs)
  ultimately show ?thesis
    using scan_unquoted_CR [of st cs] parse_rows_drop_CR [of csv]
    by (simp add: parseCSV_def)
qed

theorem carriage_return_discarded_witness:
  "\<not> inQuotes init \<and>
   scan init (CR # js ''a'') = scan init (js ''a'') \<and>
   list_all (\<lambda>c. c \<noteq> DQUOTE) (js ''A'' @ [CR, LF] @ js ''1'' @ [CR]) \<and>
   parseCSV (filter (\<lambda>c. c \<noteq> CR) (js ''A'' @ [CR, LF] @ js ''1'' @ [CR])) =
     parseCSV (js ''A'' @ [CR, LF] @ js ''1'' @ [CR]) \<and>
   parseCSV (js ''A'' @ [CR, LF] @ js ''1'' @ [CR]) = [[js ''A'' \<mapsto> js ''1'']]"
proof -
  have q: "\<forall>c\<in>set (js ''A'' @ [CR, LF] @ js ''1'' @ [CR]). c \<noteq> DQUOTE"
    by (simp add: js_def DQUOTE_def CR_def LF_def)
  have u: "\<not> inQuotes init" by (simp add: init_def)
  have r: "parseCSV (js ''A'' @ [CR, LF] @ js ''1'' @ [CR]) = [[js ''A'' \<mapsto> js ''1'']]"
    by (simp add: csv_defs)
  from q u r carriage_return_discarded [of init "js ''a''" "js ''A'' @ [CR, LF] @ js ''1'' @ [CR]"]
  show ?thesis by (simp add: list_all_iff del: scan.simps)
qed

text \<open>
  C7. At the end of the text, a cell with content or a row with at least one finished
  cell is pushed as a last row. When the text ends outside a quoted field with such a
  cell or row pending, it decodes as it would with a line feed appended; the text
  C1,C2 LF val1,val2 decodes to the single record that maps C1 to val1 and C2 to val2.
\<close>

theorem final_row_flushed:
  "(cell (scan init csv) \<noteq> [] \<or> row (scan init csv) \<noteq> [] \<longrightarrow>
      parse_rows csv = rows (scan init csv) @ [row (scan init csv) @ [cell (scan init csv)]]) \<and>
   (\<not> inQuotes (scan init csv) \<and> (cell (scan init csv) \<noteq> [] \<or> row (scan init csv) \<noteq> []) \<longrightarrow>
      parseCSV csv = parseCSV (csv @ [LF])) \<and>
   parseCSV (js ''C1,C2'' @ [LF] @ js ''val1,val2'') = [[js ''C1'' \<mapsto> js ''val1'', js ''C2'' \<mapsto> js ''val2'']]"
proof -
  have "parseCSV (js ''C1,C2'' @ [LF] @ js ''val1,val2'') = [[js ''C1'' \<mapsto> js ''val1'', js ''C2'' \<mapsto> js ''val2'']]"
    by (simp add: csv_defs)
  then show ?thesis
    using parse_rows_pending [of csv] parse_rows_LF [of csv]
    by (simp add: parseCSV_def)
qed

theorem final_row_flushed_witness:
  "cell (scan init (js ''A'' @ [LF] @ js ''1,'')) = [] \<and>
   row (scan init (js ''A'' @ [LF] @ js ''1,'')) = [js ''1''] \<and>
   \<not> inQuotes (scan init (js ''A'' @ [LF] @ js ''1,'')) \<and>
   parse_rows (js ''A'' @ [LF] @ js ''1,'') = [[js ''A''], [js ''1'', []]] \<and>
   parseCSV (js ''A'' @ [LF] @ js ''1,'') = parseCSV ((js ''A'' @ [LF] @ js ''1,'') @ [LF]) \<and>
   parseCSV (js ''A'' @ [LF] @ js ''1,'') = [[js ''A'' \<mapsto> js ''1'']]"
proof -
  have s: "scan init (js ''A'' @ [LF] @ js ''1,'') = \<lparr>rows = [[js ''A'']], row = [js ''1''], cell = [], inQuotes = False\<rparr>"
    by (simp add: scan_defs)
  have r: "parseCSV (js ''A'' @ [LF] @ js ''1,'') = [[js ''A'' \<mapsto> js ''1'']]"
    by (simp add: csv_defs)
  from s r final_row_flushed [of "js ''A'' @ [LF] @ js ''1,''"] show ?thesis
    by simp
qed

text \<open>
  C8. A data row whose cells are all the empty string is dropped: removing such a row
  from the rows leaves the records unchanged, and there are as many records as data
  rows with a non-empty cell. The header-only text A,B LF decodes to no record, and so
  does the empty text.
\<close>

theorem blank_rows_dropped:
  "((\<forall>v\<in>set r. v = []) \<longrightarrow>
      records_of_rows (h # before @ r # after) = records_of_rows (h # before @ after)) \<and>
   length (parseCSV csv) = length (filter (\<lambda>r. \<exists>v\<in>set r. v \<noteq> []) (drop 1 (parse_rows csv))) \<and>
   parseCSV (js ''A,B'' @ [LF]) = [] \<and>
   parseCSV [] = []"
proof -
  have "parseCSV (js ''A,B'' @ [LF]) = []" by (simp add: csv_defs)
  moreover have "parseCSV [] = []" by (simp add: csv_defs)
  ultimately show ?thesis
    using records_of_rows_blank [of r h before after] length_parseCSV [of csv] by blast
qed

theorem blank_rows_dropped_witness:
  "list_all (\<lambda>v. v = []) [[], []] \<and>
   parse_rows (js ''A,B'' @ [LF] @ js ''1,2'' @ [LF] @ js '','' @ [LF, LF] @ js ''3,4'' @ [LF]) =
     [js ''A'', js ''B''] # [[js ''1'', js ''2'']] @ [[], []] # [[[]], [js ''3'', js ''4'']] \<and>
   records_of_rows ([js ''A'', js ''B''] # [[js ''1'', js ''2'']] @ [[], []] # [[[]], [js ''3'', js ''4'']]) =
     records_of_rows ([js ''A'', js ''B''] # [[js ''1'', js ''2'']] @ [[[]], [js ''3'', js ''4'']]) \<and>
   parseCSV (js ''A,B'' @ [LF] @ js ''1,2'' @ [LF] @ js '','' @ [LF, LF] @ js ''3,4'' @ [LF]) =
     [[js ''A'' \<mapsto> js ''1'', js ''B'' \<mapsto> js ''2''], [js ''A'' \<mapsto> js ''3'', js ''B'' \<mapsto> js ''4'']] \<and>
   length (parseCSV (js ''A,B'' @ [LF] @ js ''1,2'' @ [LF] @ js '','' @ [LF, LF] @ js ''3,4'' @ [LF])) = 2"
proof -
  have b: "\<forall>v\<in>set [[], [] :: jsstring]. v = []" by simp
  have p: "parse_rows (js ''A,B'' @ [LF] @ js ''1,2'' @ [LF] @ js '','' @ [LF, LF] @ js ''3,4'' @ [LF]) =
     [js ''A'', js ''B''] # [[js ''1'', js ''2'']] @ [[], []] # [[[]], [js ''3'', js ''4'']]"
    by (simp add: parse_rows_def scan_defs)
  have r: "parseCSV (js ''A,B'' @ [LF] @ js ''1,2'' @ [LF] @ js '','' @ [LF, LF] @ js ''3,4'' @ [LF]) =
     [[js ''A'' \<mapsto> js ''1'', js ''B'' \<mapsto> js ''2''], [js ''A'' \<mapsto> js ''3'', js ''B'' \<mapsto> js ''4'']]"
    by (simp add: csv_defs)
  from b p r
    blank_rows_dropped [of "[[], []]" "[js ''A'', js ''B'']" "[[js ''1'', js ''2'']]" "[[[]], [js ''3'', js ''4'']]"
      "js ''A,B'' @ [LF] @ js ''1,2'' @ [LF] @ js '','' @ [LF, LF] @ js ''3,4'' @ [LF]"]
  show ?thesis by (simp add: list_all_iff)
qed

text \<open>
  C9. The title the filter searches is the first non-empty value under the keys
  Evento/titulo, Evento, titulo, in this order, and empty if there is none; the start
  instant is the first value under the keys Timestamp Inicio, Timestamp inicio, Inicio
  that parses as a date. A missing, empty or unparseable value counts as absent.
\<close>

theorem candidate_key_resolution:
  "(case title rw of None \<Rightarrow> [] | Some x \<Rightarrow> x) =
     first_non_empty rw [js ''Evento/titulo'', js ''Evento'', js ''titulo''] \<and>
   tStart H rw =
     first_valid_date H rw [js ''Timestamp Inicio'', js ''Timestamp inicio'', js ''Inicio''] \<and>
   parseDate H v = (case v of None \<Rightarrow> None | Some str \<Rightarrow> if str = [] then None else new_Date H str)"
  using title_first_non_empty [of rw] tStart_first_valid_date [of H rw] parseDate_eq [of H v]
  by simp

theorem candidate_key_resolution_witness:
  "title [js ''Evento'' \<mapsto> [], js ''titulo'' \<mapsto> js ''Feria''] = Some (js ''Feria'') \<and>
   first_non_empty [js ''Evento'' \<mapsto> [], js ''titulo'' \<mapsto> js ''Feria'']
     [js ''Evento/titulo'', js ''Evento'', js ''titulo''] = js ''Feria'' \<and>
   tStart utc_host [js ''Timestamp Inicio'' \<mapsto> js ''pronto'', js ''Inicio'' \<mapsto> js ''2024-01-15''] =
     Some 1705276800000 \<and>
   first_valid_date utc_host [js ''Timestamp Inicio'' \<mapsto> js ''pronto'', js ''Inicio'' \<mapsto> js ''2024-01-15'']
     [js ''Timestamp Inicio'', js ''Timestamp inicio'', js ''Inicio''] = Some 1705276800000 \<and>
   parseDate utc_host (Some (js ''pronto'')) = None \<and>
   parseDate utc_host None = None"
proof -
  have a: "title [js ''Evento'' \<mapsto> [], js ''titulo'' \<mapsto> js ''Feria''] = Some (js ''Feria'')"
    by (simp add: filter_defs)
  have b: "tStart utc_host [js ''Timestamp Inicio'' \<mapsto> js ''pronto'', js ''Inicio'' \<mapsto> js ''2024-01-15''] =
     Some 1705276800000"
    by (simp add: filter_defs)
  have c: "parseDate utc_host (Some (js ''pronto'')) = None" "parseDate utc_host None = None"
    by (simp_all add: filter_defs)
  from a b c
    candidate_key_resolution [of "[js ''Evento'' \<mapsto> [], js ''titulo'' \<mapsto> js ''Feria'']" utc_host None]
    candidate_key_resolution [of "[js ''Timestamp Inicio'' \<mapsto> js ''pronto'', js ''Inicio'' \<mapsto> js ''2024-01-15'']"
      utc_host "Some (js ''pronto'')"]
  show ?thesis by simp
qed

text \<open>
  C10. Under the headers A,__proto__ the row 1,2,3 decodes to a record whose only key
  is A: the trimmed header name \<open>__proto__\<close> is not among its keys. The third cell
  is ignored.
\<close>

theorem proto_header_is_no_key:
  "parse_rows (js ''A,__proto__'' @ [LF] @ js ''1,2,3'' @ [LF]) =
     [[js ''A'', js ''__proto__''], [js ''1'', js ''2'', js ''3'']] \<and>
   map trim (header_row (js ''A,__proto__'' @ [LF] @ js ''1,2,3'' @ [LF])) = [js ''A'', js ''__proto__''] \<and>
   parseCSV (js ''A,__proto__'' @ [LF] @ js ''1,2,3'' @ [LF]) = [[js ''A'' \<mapsto> js ''1'']] \<and>
   dom (parseCSV (js ''A,__proto__'' @ [LF] @ js ''1,2,3'' @ [LF]) ! 0) = {js ''A''} \<and>
   js ''__proto__'' \<notin> dom (parseCSV (js ''A,__proto__'' @ [LF] @ js ''1,2,3'' @ [LF]) ! 0) \<and>
   parseCSV (js ''A,B'' @ [LF] @ js ''1,2,3'' @ [LF]) = [[js ''A'' \<mapsto> js ''1'', js ''B'' \<mapsto> js ''2'']]"
  by (simp add: csv_defs)

end
